theory Spec2Isabelle
  imports Main "HOL-Library.Word"
begin

unbundle bit_operations_syntax

section \<open>Slug generation (articles.service.ts, lines 81-104)\<close>

text \<open>
  A JavaScript string is modelled as a \<open>string\<close>, a character being a code unit
  below 256. The random bytes that
  \<^verbatim>\<open>crypto.getRandomValues\<close> writes into the fresh \<^verbatim>\<open>Uint8Array(length)\<close> come from an
  entropy source \<open>rng\<close>: \<open>rng i\<close> is the byte stored at index \<open>i\<close>. The array always
  has exactly \<open>length\<close> cells.
\<close>

type_synonym u8 = "8 word"

definition getRandomValues :: "(nat \<Rightarrow> u8) \<Rightarrow> nat \<Rightarrow> u8 list" where
  "getRandomValues rng len = map rng [0..<len]"

text \<open>The constant \<^verbatim>\<open>charset\<close> of \<^verbatim>\<open>generateUniqueSuffix\<close> (line 95).\<close>

definition charset :: string where
  "charset = ''useandom-26T198340PX75pxJACKVERYMINDBUSHWOLF_GQZbfghjklqvwyzrict''"

text \<open>
  The loop of lines 99-101: \<^verbatim>\<open>for (let i = 0; i < length; i++) id += charset[randomValues[i] & 63]\<close>.
  \<open>ident\<close> is the accumulator \<^verbatim>\<open>id\<close>.
\<close>

function suffix_loop :: "u8 list \<Rightarrow> nat \<Rightarrow> nat \<Rightarrow> string \<Rightarrow> string" where
  "suffix_loop randomValues len i ident =
     (if i < len
      then suffix_loop randomValues len (Suc i)
             (ident @ [charset ! unat ((randomValues ! i) AND 63)])
      else ident)"
  by pat_completeness auto
termination
  by (relation "measure (\<lambda>(randomValues, len, i, ident). len - i)") auto

declare suffix_loop.simps [simp del]

definition generateUniqueSuffix :: "(nat \<Rightarrow> u8) \<Rightarrow> nat \<Rightarrow> string" where
  "generateUniqueSuffix rng len = suffix_loop (getRandomValues rng len) len 0 []"

text \<open>
  The imported package \<^verbatim>\<open>slugify\<close> is not part of the repository. It is modelled from
  the spec (section 4.2) and the package's documented behaviour for the options the
  service passes (\<^verbatim>\<open>lower: true, strict: true, remove: /[*+~.()'"!:@]/g\<close>): every
  character is replaced by its entry in the package's character map when it has one
  (the map is the parameter \<open>charMap\<close>), a character equal to the replacement \<open>-\<close>
  becomes a space, the characters of \<open>remove\<close> are deleted, strict mode deletes all
  that is neither an ASCII letter, a digit nor white space, the result is trimmed, each
  run of white space becomes one \<open>-\<close>, and the result is lower-cased. White space is
  JavaScript's, as far as a character here can be one: tab, line feed, vertical tab,
  form feed, carriage return, space and the no-break space U+00A0.
\<close>

definition is_digit :: "char \<Rightarrow> bool" where
  "is_digit c = (48 \<le> (of_char c :: nat) \<and> (of_char c :: nat) \<le> 57)"

definition is_upper :: "char \<Rightarrow> bool" where
  "is_upper c = (65 \<le> (of_char c :: nat) \<and> (of_char c :: nat) \<le> 90)"

definition is_lower :: "char \<Rightarrow> bool" where
  "is_lower c = (97 \<le> (of_char c :: nat) \<and> (of_char c :: nat) \<le> 122)"

definition is_space :: "char \<Rightarrow> bool" where
  "is_space c = ((of_char c :: nat) \<in> {9, 10, 11, 12, 13, 32, 160})"

definition toLowerCase :: "char \<Rightarrow> char" where
  "toLowerCase c = (if is_upper c then char_of ((of_char c :: nat) + 32) else c)"

definition remove_chars :: string where
  "remove_chars = ''*+~.()'' @ [CHR 0x27, CHR 0x22] @ ''!:@''"

definition strict_keeps :: "char \<Rightarrow> bool" where
  "strict_keeps c = (is_upper c \<or> is_lower c \<or> is_digit c \<or> is_space c)"

definition appendChar :: "(char \<Rightarrow> string option) \<Rightarrow> char \<Rightarrow> string" where
  "appendChar charMap ch =
     (let a = (case charMap ch of None \<Rightarrow> [ch] | Some s \<Rightarrow> s);
          a' = (if a = ''-'' then '' '' else a)
      in filter (\<lambda>c. c \<notin> set remove_chars) a')"

definition trim :: "string \<Rightarrow> string" where
  "trim s = rev (dropWhile is_space (rev (dropWhile is_space s)))"

function replace_spaces :: "string \<Rightarrow> string" where
  "replace_spaces [] = []"
| "replace_spaces (c # cs) =
     (if is_space c then CHR ''-'' # replace_spaces (dropWhile is_space cs)
      else c # replace_spaces cs)"
  by pat_completeness auto
termination
  by (relation "measure length") (auto simp: length_dropWhile_le less_Suc_eq_le)

definition slugify_pkg :: "(char \<Rightarrow> string option) \<Rightarrow> string \<Rightarrow> string" where
  "slugify_pkg charMap title =
     map toLowerCase
       (replace_spaces (trim (filter strict_keeps (concat (map (appendChar charMap) title)))))"

text \<open>\<^verbatim>\<open>ArticlesService.slugify\<close> (lines 81-91); the suffix has the default length 11.\<close>

definition slugify :: "(char \<Rightarrow> string option) \<Rightarrow> (nat \<Rightarrow> u8) \<Rightarrow> string \<Rightarrow> string" where
  "slugify charMap rng title =
     (let baseSlug = slugify_pkg charMap title;
          uniqueSuffix = generateUniqueSuffix rng 11
      in baseSlug @ ''-'' @ uniqueSuffix)"

text \<open>What the spec calls a slug character: a lower-case letter, a digit or the separator.\<close>

definition slug_char :: "char \<Rightarrow> bool" where
  "slug_char c = (is_lower c \<or> is_digit c \<or> c = CHR ''-'')"

section \<open>Domain objects and the persistent state\<close>

text \<open>
  Identifiers of users, articles and comments are natural numbers; a tag's id is a
  string, as in the \<^verbatim>\<open>Tag\<close> domain class. Time stamps are never read by the services
  and are left out. A nullable or optional value is an \<open>option\<close>.
\<close>

datatype error = NotFound | Unauthorized | Failure

record User =
  user_id :: nat

record JwtPayloadType =
  jwt_id :: nat

record Tag =
  tag_id :: string
  tag_name :: string

record CreateTagDto =
  ctd_name :: string

record Article =
  art_id :: nat
  title :: string
  slug :: string
  body :: string
  author_id :: nat
  tagList :: "Tag list option"

record CreateArticleDto =
  dto_title :: string
  dto_body :: string
  dto_tagList :: "string list option"

text \<open>The object handed to \<^verbatim>\<open>articleRepository.create\<close> (lines 44-47 and 70-74).\<close>

record ArticlePayload =
  p_title :: string
  p_body :: string
  p_author_id :: nat
  p_tagList :: "Tag list option"
  p_slug :: string

record UpdateArticleDto =
  upd_title :: "string option"
  upd_body :: "string option"

text \<open>The object handed to \<^verbatim>\<open>articleRepository.update\<close> (lines 128-132).\<close>

record UpdatePayload =
  pl_body :: "string option"
  pl_title :: "string option"
  pl_slug :: "string option"

text \<open>
  A comment as \<^verbatim>\<open>commentRepository.findById\<close> returns it: \<open>author\<close> is the populated
  relation (absent when the repository did not load it), \<open>comment_author_id\<close> the
  stored reference.
\<close>

record Comment =
  comment_id :: nat
  comment_body :: string
  comment_article_id :: nat
  comment_author_id :: nat
  author :: "User option"

text \<open>The calls a request makes to the tag service and the article repository.\<close>

datatype call =
  TagsFindByNames | TagsToCreateTagDtos | TagsCreateMany
  | ArticlesCreate | ArticlesFindByIdWithRelations

definition is_tag_call :: "call \<Rightarrow> bool" where
  "is_tag_call c = (c = TagsFindByNames \<or> c = TagsToCreateTagDtos \<or> c = TagsCreateMany)"

text \<open>
  The state: the three tables, in insertion order, and the trace of the calls made so
  far (the trace is an observation of the run, not part of the stored data).
\<close>

record world =
  tags :: "Tag list"
  articles :: "Article list"
  comments :: "Comment list"
  trace :: "call list"

text \<open>
  What the services cannot decide themselves: which awaited call of the creation flow
  is rejected by the storage layer (\<open>fails\<close>), the id the tag table gives its \<open>n\<close>-th
  row, whether \<^verbatim>\<open>findByNames\<close> answers \<^verbatim>\<open>null\<close> instead of an empty array (its
  result type is \<^verbatim>\<open>NullableType<Tag[]>\<close>), the character map of the slug package and
  the entropy source. A rejected call is modelled in the creation flow, where the spec
  speaks of it; in update and in comment removal the repositories answer.
\<close>

record env =
  fails :: "call \<Rightarrow> bool"
  newTagId :: "nat \<Rightarrow> string"
  findNull :: bool
  charMap :: "char \<Rightarrow> string option"
  rng :: "nat \<Rightarrow> u8"

type_synonym 'a action = "world \<Rightarrow> (error + 'a) \<times> world"

definition succeed :: "'a \<Rightarrow> 'a action" where
  "succeed v w = (Inr v, w)"

definition throw :: "error \<Rightarrow> 'a action" where
  "throw err w = (Inl err, w)"

text \<open>\<^verbatim>\<open>await\<close> in sequence: an exception ends the flow with the state reached so far.\<close>

definition andThen :: "'a action \<Rightarrow> ('a \<Rightarrow> 'b action) \<Rightarrow> 'b action" where
  "andThen m f w = (case m w of (Inl e, w') \<Rightarrow> (Inl e, w') | (Inr v, w') \<Rightarrow> f v w')"

text \<open>
  One awaited call of the creation flow: it is recorded in the trace, and either the
  storage layer rejects it or it runs.
\<close>

definition attempt :: "env \<Rightarrow> call \<Rightarrow> (world \<Rightarrow> 'a \<times> world) \<Rightarrow> 'a action" where
  "attempt e c run w =
     (let w1 = w\<lparr>trace := trace w @ [c]\<rparr>
      in if fails e c then (Inl Failure, w1)
         else (case run w1 of (v, w2) \<Rightarrow> (Inr v, w2)))"

section \<open>The package radash\<close>

text \<open>
  \<^verbatim>\<open>unique\<close> and \<^verbatim>\<open>diff\<close> come from the package radash, which is not part of the
  repository. Both keep their bookkeeping in a plain object \<^verbatim>\<open>{}\<close> indexed by the
  items, and a plain object answers a lookup also for the property names it inherits
  from \<^verbatim>\<open>Object.prototype\<close>, each with a truthy value.
\<close>

definition inherited :: "string list" where
  "inherited =
     [''constructor'', ''__defineGetter__'', ''__defineSetter__'', ''hasOwnProperty'',
      ''__lookupGetter__'', ''__lookupSetter__'', ''isPrototypeOf'',
      ''propertyIsEnumerable'', ''toString'', ''valueOf'', ''__proto__'',
      ''toLocaleString'']"

text \<open>
  \<^verbatim>\<open>unique(array)\<close> reduces the array with
  \<^verbatim>\<open>if (acc[key]) return acc; acc[key] = item; return acc\<close>, starting from \<^verbatim>\<open>{}\<close>,
  and returns \<^verbatim>\<open>Object.values\<close> of the result. \<open>acc\<close> is the list of the object's own
  keys in insertion order (the value stored under a key is the key). A lookup is truthy
  for an own key other than the empty string and for every inherited name.
\<close>

definition unique_step :: "string list \<Rightarrow> string \<Rightarrow> string list" where
  "unique_step acc item =
     (if (item \<in> set acc \<and> item \<noteq> []) \<or> item \<in> set inherited then acc
      else if item \<in> set acc then acc
      else acc @ [item])"

text \<open>
  \<^verbatim>\<open>Object.values\<close> lists the values under the array-index keys first, in ascending
  numeric order, then the others in insertion order. An array index is the canonical
  decimal form of a number below \<open>2\<^sup>3\<^sup>2 - 1\<close>.
\<close>

definition index_value :: "string \<Rightarrow> int" where
  "index_value s = foldl (\<lambda>n c. 10 * n + ((of_char c :: int) - 48)) 0 s"

definition is_array_index :: "string \<Rightarrow> bool" where
  "is_array_index s =
     (s \<noteq> [] \<and> list_all is_digit s \<and> (s = ''0'' \<or> take 1 s \<noteq> ''0'') \<and>
      index_value s < 4294967295)"

definition object_values :: "string list \<Rightarrow> string list" where
  "object_values ks =
     sort_key index_value (filter is_array_index ks) @ filter (\<lambda>k. \<not> is_array_index k) ks"

definition unique :: "string list \<Rightarrow> string list" where
  "unique array = object_values (foldl unique_step [] array)"

text \<open>
  \<^verbatim>\<open>diff(root, other)\<close>: two early returns, then the items of \<open>root\<close> for which the
  lookup in the object built from \<open>other\<close> is falsy.
\<close>

definition diff :: "string list \<Rightarrow> string list \<Rightarrow> string list" where
  "diff root other =
     (if root = [] \<and> other = [] then []
      else if other = [] then root
      else filter (\<lambda>a. \<not> (a \<in> set other \<or> a \<in> set inherited)) root)"

section \<open>The tag service\<close>

text \<open>
  Modelled from the spec: \<^verbatim>\<open>TagsService\<close> (\<^verbatim>\<open>findByNames\<close>, \<^verbatim>\<open>toCreateTagDtos\<close>,
  \<^verbatim>\<open>createMany\<close>) is not among the sources. Section 4.1: existing tags are looked up by
  the name set; new tag records are bulk-created for the names given. Section 2: the
  tag repository persists and retrieves tag records by name.
\<close>

definition findByNames :: "env \<Rightarrow> string list \<Rightarrow> Tag list option action" where
  "findByNames e names =
     attempt e TagsFindByNames
       (\<lambda>w. (let found = filter (\<lambda>t. tag_name t \<in> set names) (tags w)
             in if found = [] \<and> findNull e then None else Some found, w))"

definition toCreateTagDtos :: "string list \<Rightarrow> CreateTagDto list action" where
  "toCreateTagDtos names =
     (\<lambda>w. (Inr (map (\<lambda>n. \<lparr>ctd_name = n\<rparr>) names), w\<lparr>trace := trace w @ [TagsToCreateTagDtos]\<rparr>))"

definition new_rows :: "env \<Rightarrow> nat \<Rightarrow> CreateTagDto list \<Rightarrow> Tag list" where
  "new_rows e n dtos =
     map (\<lambda>(k, d). \<lparr>tag_id = newTagId e (n + k), tag_name = ctd_name d\<rparr>)
       (zip [0..<length dtos] dtos)"

definition createMany :: "env \<Rightarrow> CreateTagDto list \<Rightarrow> Tag list action" where
  "createMany e dtos =
     attempt e TagsCreateMany
       (\<lambda>w. (let created = new_rows e (length (tags w)) dtos
             in (created, w\<lparr>tags := tags w @ created\<rparr>)))"

section \<open>The article repository and the transaction manager\<close>

text \<open>
  Modelled from the spec: \<^verbatim>\<open>ArticleRepository\<close> is not among the sources. Section 2:
  it persists article records with associated tags and author; section 6: CRUD plus
  \<^verbatim>\<open>findBySlug\<close> and \<^verbatim>\<open>findByIdWithRelations\<close>. A new row gets an id that no row has.
  \<^verbatim>\<open>update\<close> writes the fields the payload defines and leaves the others.
\<close>

definition fresh_id :: "Article list \<Rightarrow> nat" where
  "fresh_id arts = Suc (fold max (map art_id arts) 0)"

definition articleRepository_create :: "env \<Rightarrow> ArticlePayload \<Rightarrow> Article action" where
  "articleRepository_create e p =
     attempt e ArticlesCreate
       (\<lambda>w. (let a = \<lparr>art_id = fresh_id (articles w), title = p_title p, slug = p_slug p,
                       body = p_body p, author_id = p_author_id p, tagList = p_tagList p\<rparr>
             in (a, w\<lparr>articles := articles w @ [a]\<rparr>)))"

definition articleRepository_findById :: "nat \<Rightarrow> world \<Rightarrow> Article option" where
  "articleRepository_findById i w = find (\<lambda>a. art_id a = i) (articles w)"

definition articleRepository_findByIdWithRelations :: "nat \<Rightarrow> world \<Rightarrow> Article option" where
  "articleRepository_findByIdWithRelations i w = find (\<lambda>a. art_id a = i) (articles w)"

definition articleRepository_findBySlug :: "string \<Rightarrow> world \<Rightarrow> Article option" where
  "articleRepository_findBySlug s w = find (\<lambda>a. slug a = s) (articles w)"

definition apply_payload :: "UpdatePayload \<Rightarrow> Article \<Rightarrow> Article" where
  "apply_payload p a =
     a\<lparr>title := (case pl_title p of None \<Rightarrow> title a | Some t \<Rightarrow> t),
       body := (case pl_body p of None \<Rightarrow> body a | Some b \<Rightarrow> b),
       slug := (case pl_slug p of None \<Rightarrow> slug a | Some s \<Rightarrow> s)\<rparr>"

definition articleRepository_update :: "Article \<Rightarrow> UpdatePayload \<Rightarrow> world \<Rightarrow> Article \<times> world" where
  "articleRepository_update a p w =
     (apply_payload p a,
      w\<lparr>articles := map (\<lambda>x. if art_id x = art_id a then apply_payload p x else x) (articles w)\<rparr>)"

text \<open>
  Modelled from the spec: the transaction manager is not among the sources. Section 6:
  \<^verbatim>\<open>runInTransaction(fn)\<close> executes \<open>fn\<close> atomically, propagating success or failure;
  section 4.3: on failure the entire transaction rolls back. A failed run leaves the
  tables as they were before it.
\<close>

definition runInTransaction :: "'a action \<Rightarrow> 'a action" where
  "runInTransaction fn w =
     (case fn w of
        (Inl e, w') \<Rightarrow>
          (Inl e, w'\<lparr>tags := tags w, articles := articles w, comments := comments w\<rparr>)
      | (Inr v, w') \<Rightarrow> (Inr v, w'))"

text \<open>
  Modelled from the spec: \<^verbatim>\<open>CommentRepository\<close> is not among the sources. Section 6:
  CRUD; \<^verbatim>\<open>findById\<close> yields the comment with that id or nothing, \<^verbatim>\<open>remove\<close> deletes it.
\<close>

definition commentRepository_findById :: "nat \<Rightarrow> world \<Rightarrow> Comment option" where
  "commentRepository_findById i w = find (\<lambda>c. comment_id c = i) (comments w)"

definition commentRepository_remove :: "nat \<Rightarrow> world \<Rightarrow> world" where
  "commentRepository_remove i w = w\<lparr>comments := filter (\<lambda>c. comment_id c \<noteq> i) (comments w)\<rparr>"

section \<open>ArticlesService: creation (articles.service.ts, lines 30-79)\<close>

text \<open>
  The body of the \<^verbatim>\<open>if\<close> of lines 51-68, for a non-empty \<^verbatim>\<open>tagList\<close>: the value it
  leaves in the variable \<^verbatim>\<open>tags\<close>.
\<close>

definition reconcileTags :: "env \<Rightarrow> string list \<Rightarrow> Tag list option action" where
  "reconcileTags e tagList0 =
     (let uniqueTagList = unique tagList0
      in andThen (findByNames e uniqueTagList) (\<lambda>tags0.
           let newTagNames =
                 diff uniqueTagList (case tags0 of None \<Rightarrow> [] | Some ts \<Rightarrow> map tag_name ts)
           in if length newTagNames > 0
              then andThen (toCreateTagDtos newTagNames) (\<lambda>dtos.
                   andThen (createMany e dtos) (\<lambda>newTags.
                     succeed (Some ((case tags0 of None \<Rightarrow> [] | Some ts \<Rightarrow> ts) @ newTags))))
              else succeed tags0))"

definition validateAndFetchArticleWithRelationsById :: "env \<Rightarrow> nat \<Rightarrow> Article action" where
  "validateAndFetchArticleWithRelationsById e i =
     andThen
       (attempt e ArticlesFindByIdWithRelations
          (\<lambda>w. (articleRepository_findByIdWithRelations i w, w)))
       (\<lambda>article. case article of None \<Rightarrow> throw NotFound | Some a \<Rightarrow> succeed a)"

definition createArticleWithTransaction ::
  "env \<Rightarrow> CreateArticleDto \<Rightarrow> JwtPayloadType \<Rightarrow> Article action" where
  "createArticleWithTransaction e createArticleDto userJwtPayload =
     andThen
       (case dto_tagList createArticleDto of
          None \<Rightarrow> succeed (Some [])
        | Some names \<Rightarrow> if length names > 0 then reconcileTags e names else succeed (Some []))
       (\<lambda>tags1.
          let articlePayload =
                \<lparr>p_title = dto_title createArticleDto, p_body = dto_body createArticleDto,
                 p_author_id = jwt_id userJwtPayload, p_tagList = tags1,
                 p_slug = slugify (charMap e) (rng e) (dto_title createArticleDto)\<rparr>
          in andThen (articleRepository_create e articlePayload) (\<lambda>article.
               validateAndFetchArticleWithRelationsById e (art_id article)))"

definition create :: "env \<Rightarrow> CreateArticleDto \<Rightarrow> JwtPayloadType \<Rightarrow> Article action" where
  "create e createArticleDto userJwtPayload =
     runInTransaction (createArticleWithTransaction e createArticleDto userJwtPayload)"

section \<open>ArticlesService: update (articles.service.ts, lines 123-142 and 191-204)\<close>

definition validateAndFetchArticleById :: "nat \<Rightarrow> Article action" where
  "validateAndFetchArticleById i w =
     (case articleRepository_findById i w of
        None \<Rightarrow> (Inl NotFound, w)
      | Some article \<Rightarrow> (Inr article, w))"

text \<open>
  The payload of lines 128-132. \<^verbatim>\<open>title && title !== article.title && {slug: ...}\<close>
  spreads a slug only for a title that is defined, not the empty string, and not the
  article's title.
\<close>

definition update_payload :: "env \<Rightarrow> Article \<Rightarrow> UpdateArticleDto \<Rightarrow> UpdatePayload" where
  "update_payload e article updateArticleDto =
     \<lparr>pl_body = upd_body updateArticleDto,
      pl_title = upd_title updateArticleDto,
      pl_slug =
        (case upd_title updateArticleDto of
           None \<Rightarrow> None
         | Some t \<Rightarrow>
             if t \<noteq> [] \<and> t \<noteq> title article then Some (slugify (charMap e) (rng e) t)
             else None)\<rparr>"

definition update :: "env \<Rightarrow> nat \<Rightarrow> UpdateArticleDto \<Rightarrow> Article option action" where
  "update e i updateArticleDto =
     andThen (validateAndFetchArticleById i) (\<lambda>article w.
       case articleRepository_update article (update_payload e article updateArticleDto) w of
         (updatedArticle, w') \<Rightarrow>
           (Inr (articleRepository_findByIdWithRelations (art_id updatedArticle) w'), w'))"

section \<open>Comment removal (comments.service.ts, lines 60-88; articles.service.ts, lines 223-244)\<close>

definition validateAndFetchComment :: "nat \<Rightarrow> Comment action" where
  "validateAndFetchComment i w =
     (case commentRepository_findById i w of
        None \<Rightarrow> (Inl NotFound, w)
      | Some comment \<Rightarrow> (Inr comment, w))"

text \<open>
  \<^verbatim>\<open>CommentsService.remove\<close>. \<^verbatim>\<open>comment?.author?.id\<close> is \<^verbatim>\<open>undefined\<close> when the author
  relation is absent, and \<^verbatim>\<open>undefined !== userJwtPayload.id\<close> holds.
\<close>

definition comments_remove :: "nat \<Rightarrow> JwtPayloadType \<Rightarrow> unit action" where
  "comments_remove i userJwtPayload =
     andThen (validateAndFetchComment i) (\<lambda>comment.
       if map_option user_id (author comment) \<noteq> Some (jwt_id userJwtPayload)
       then throw Unauthorized
       else (\<lambda>w. (Inr (), commentRepository_remove i w)))"

definition validateArticle :: "string \<Rightarrow> unit action" where
  "validateArticle s w =
     (case articleRepository_findBySlug s w of
        None \<Rightarrow> (Inl NotFound, w)
      | Some article \<Rightarrow> (Inr (), w))"

definition removeComment :: "nat \<Rightarrow> string \<Rightarrow> JwtPayloadType \<Rightarrow> unit action" where
  "removeComment i s userJwtPayload =
     andThen (validateArticle s) (\<lambda>u. comments_remove i userJwtPayload)"

section \<open>A concrete state for the examples\<close>

definition demo_env :: env where
  "demo_env =
     \<lparr>fails = (\<lambda>c. False), newTagId = (\<lambda>n. replicate (Suc n) CHR ''#''),
      findNull = False, charMap = (\<lambda>c. None), rng = (\<lambda>i. 11)\<rparr>"

text \<open>The same collaborators, with the storage layer rejecting the article insert.\<close>

definition demo_failing_env :: env where
  "demo_failing_env = demo_env\<lparr>fails := (\<lambda>c. c = ArticlesCreate)\<rparr>"

definition demo_article :: Article where
  "demo_article =
     \<lparr>art_id = 1, title = ''Hello'', slug = ''hello-useandom26T'', body = ''text'',
      author_id = 2, tagList = Some []\<rparr>"

definition demo_tag :: Tag where
  "demo_tag = \<lparr>tag_id = ''t1'', tag_name = ''nestjs''\<rparr>"

definition demo_comment_other_article :: Comment where
  "demo_comment_other_article =
     \<lparr>comment_id = 5, comment_body = ''first'', comment_article_id = 9,
      comment_author_id = 2, author = Some \<lparr>user_id = 2\<rparr>\<rparr>"

definition demo_comment_no_author :: Comment where
  "demo_comment_no_author =
     \<lparr>comment_id = 6, comment_body = ''second'', comment_article_id = 1,
      comment_author_id = 2, author = None\<rparr>"

definition demo_world :: world where
  "demo_world =
     \<lparr>tags = [demo_tag], articles = [demo_article],
      comments = [demo_comment_other_article, demo_comment_no_author], trace = []\<rparr>"

definition demo_dto :: CreateArticleDto where
  "demo_dto =
     \<lparr>dto_title = ''Hello, World!'', dto_body = ''text'',
      dto_tagList = Some [''nestjs'', ''isabelle'', ''nestjs'']\<rparr>"

definition demo_dto_no_tags :: CreateArticleDto where
  "demo_dto_no_tags = \<lparr>dto_title = ''Hello, World!'', dto_body = ''text'', dto_tagList = None\<rparr>"

text \<open>A request that asks twice for the tag \<open>constructor\<close>, which has no record.\<close>

definition demo_dto_constructor :: CreateArticleDto where
  "demo_dto_constructor =
     \<lparr>dto_title = ''Hello, World!'', dto_body = ''text'',
      dto_tagList = Some [''constructor'', ''constructor'']\<rparr>"

definition demo_actor :: JwtPayloadType where
  "demo_actor = \<lparr>jwt_id = 2\<rparr>"

definition demo_stranger :: JwtPayloadType where
  "demo_stranger = \<lparr>jwt_id = 3\<rparr>"

section \<open>Properties of slug generation\<close>

lemma suffix_loop_eq:
  "suffix_loop rv len i acc = acc @ map (\<lambda>k. charset ! unat ((rv ! k) AND 63)) [i..<len]"
proof (induction rv len i acc rule: suffix_loop.induct)
  case (1 rv len i acc)
  show ?case
  proof (cases "i < len")
    case True
    then have upt: "[i..<len] = i # [Suc i..<len]"
      by (simp add: upt_conv_Cons)
    from True have "suffix_loop rv len i acc =
        suffix_loop rv len (Suc i) (acc @ [charset ! unat ((rv ! i) AND 63)])"
      by (subst suffix_loop.simps) simp
    also have "\<dots> = (acc @ [charset ! unat ((rv ! i) AND 63)]) @
        map (\<lambda>k. charset ! unat ((rv ! k) AND 63)) [Suc i..<len]"
      using True by (rule "1.IH")
    finally show ?thesis
      by (simp add: upt)
  next
    case False
    then show ?thesis
      by (subst suffix_loop.simps) simp
  qed
qed

lemma map_nth_upt: "map (\<lambda>k. f (xs ! k)) [0..<length xs] = map f xs"
  by (rule nth_equalityI) simp_all

lemma length_getRandomValues: "length (getRandomValues rnd len) = len"
  by (simp add: getRandomValues_def)

lemma generateUniqueSuffix_map:
  "generateUniqueSuffix rnd len = map (\<lambda>b. charset ! unat (b AND 63)) (getRandomValues rnd len)"
proof -
  have "generateUniqueSuffix rnd len =
        map (\<lambda>k. charset ! unat ((getRandomValues rnd len ! k) AND 63))
          [0..<length (getRandomValues rnd len)]"
    by (simp only: generateUniqueSuffix_def suffix_loop_eq append_Nil length_getRandomValues)
  also have "\<dots> = map (\<lambda>b. charset ! unat (b AND 63)) (getRandomValues rnd len)"
    by (rule map_nth_upt [of "\<lambda>b. charset ! unat (b AND 63)"])
  finally show ?thesis .
qed

lemma length_charset: "length charset = 64"
  by (simp add: charset_def)

lemma distinct_charset: "distinct charset"
  by (simp add: charset_def)

lemma mask63_less: "unat ((b :: u8) AND 63) < 64"
proof -
  have "b AND 63 \<le> 63"
    by (rule word_and_le1)
  then have "unat (b AND 63) \<le> unat (63 :: u8)"
    by (simp add: word_le_nat_alt)
  then show ?thesis
    by simp
qed

lemma charset_index_mem: "charset ! unat ((b :: u8) AND 63) \<in> set charset"
  using mask63_less [of b] by (simp add: length_charset)

lemma generateUniqueSuffix_length: "length (generateUniqueSuffix rnd len) = len"
  by (simp add: generateUniqueSuffix_map length_getRandomValues)

lemma generateUniqueSuffix_in_charset:
  "list_all (\<lambda>c. c \<in> set charset) (generateUniqueSuffix rnd len)"
  by (simp add: generateUniqueSuffix_map list_all_iff charset_index_mem)

text \<open>
  Claim C5. For every entropy source, \<^verbatim>\<open>generateUniqueSuffix()\<close> with its default length
  fills an array of 11 random bytes and returns a string of exactly 11 characters: the
  character at each position is the alphabet symbol at index \<open>byte AND 63\<close> of the byte
  at that position, so every character belongs to the alphabet, which has 64 distinct
  symbols.
\<close>

theorem generateUniqueSuffix_default:
  "length (getRandomValues rnd 11) = 11 \<and>
   generateUniqueSuffix rnd 11 = map (\<lambda>b. charset ! unat (b AND 63)) (getRandomValues rnd 11) \<and>
   length (generateUniqueSuffix rnd 11) = 11 \<and>
   list_all (\<lambda>c. c \<in> set charset) (generateUniqueSuffix rnd 11) \<and>
   length charset = 64 \<and> distinct charset"
proof (intro conjI)
  show "length (getRandomValues rnd 11) = 11" by (rule length_getRandomValues)
  show "generateUniqueSuffix rnd 11 = map (\<lambda>b. charset ! unat (b AND 63)) (getRandomValues rnd 11)"
    by (rule generateUniqueSuffix_map)
  show "length (generateUniqueSuffix rnd 11) = 11" by (rule generateUniqueSuffix_length)
  show "list_all (\<lambda>c. c \<in> set charset) (generateUniqueSuffix rnd 11)"
    by (rule generateUniqueSuffix_in_charset)
  show "length charset = 64" by (rule length_charset)
  show "distinct charset" by (rule distinct_charset)
qed

lemma toLowerCase_slug_char:
  "is_upper c \<or> is_lower c \<or> is_digit c \<or> c = CHR ''-'' \<Longrightarrow> slug_char (toLowerCase c)"
proof (cases "is_upper c")
  case True
  then have "(of_char c :: nat) + 32 < 256" by (simp add: is_upper_def)
  then have "of_char (char_of ((of_char c :: nat) + 32)) = (of_char c :: nat) + 32"
    by (simp add: of_char_of [where ?'a = nat])
  with True show ?thesis
    by (simp add: toLowerCase_def slug_char_def is_lower_def is_upper_def)
next
  case False
  assume "is_upper c \<or> is_lower c \<or> is_digit c \<or> c = CHR ''-''"
  with False show ?thesis
    by (auto simp: toLowerCase_def slug_char_def)
qed

lemma set_trim: "set (trim s) \<subseteq> set s"
proof -
  have "set (trim s) \<subseteq> set (rev (dropWhile is_space s))"
    unfolding trim_def set_rev by (auto dest: set_dropWhileD)
  also have "\<dots> \<subseteq> set s"
    unfolding set_rev by (auto dest: set_dropWhileD)
  finally show ?thesis .
qed

lemma replace_spaces_chars:
  "set (replace_spaces s) \<subseteq> {c \<in> set s. \<not> is_space c} \<union> {CHR ''-''}"
proof (induction s rule: replace_spaces.induct)
  case 1
  show ?case by simp
next
  case (2 c cs)
  show ?case
  proof (cases "is_space c")
    case True
    have "set (dropWhile is_space cs) \<subseteq> set cs"
      by (rule set_dropWhileD [THEN subsetI])
    with True "2.IH"(1) show ?thesis by auto
  next
    case False
    with "2.IH"(2) show ?thesis by auto
  qed
qed

lemma slugify_pkg_chars: "list_all slug_char (slugify_pkg cm ttl)"
proof -
  let ?kept = "filter strict_keeps (concat (map (appendChar cm) ttl))"
  have "\<forall>c \<in> set (replace_spaces (trim ?kept)).
          is_upper c \<or> is_lower c \<or> is_digit c \<or> c = CHR ''-''"
  proof
    fix c
    assume "c \<in> set (replace_spaces (trim ?kept))"
    then have "(c \<in> set (trim ?kept) \<and> \<not> is_space c) \<or> c = CHR ''-''"
      using replace_spaces_chars [of "trim ?kept"] by auto
    then have "(c \<in> set ?kept \<and> \<not> is_space c) \<or> c = CHR ''-''"
      using set_trim [of ?kept] by auto
    then show "is_upper c \<or> is_lower c \<or> is_digit c \<or> c = CHR ''-''"
      by (auto simp: strict_keeps_def)
  qed
  then show ?thesis
    by (simp add: slugify_pkg_def list_all_iff toLowerCase_slug_char)
qed

text \<open>
  Claim C4, as stated, fails: the alphabet of the suffix has upper-case letters and the
  underscore, so the slug as a whole is not made of lower-case letters, digits and the
  separator only. With every random byte equal to 11 the title \<open>a\<close> gets the slug
  \<open>a-TTTTTTTTTTT\<close>.
\<close>

theorem slugify_upper_case_counterexample:
  "\<not> list_all slug_char (slugify (\<lambda>_. None) (\<lambda>_. 11) ''a'')"
  by code_simp

text \<open>
  Claim C4, amended. For every title, the slug is the base slug, the separator \<open>-\<close> and
  the suffix; the base slug contains only lower-case letters, digits and the separator;
  the suffix has 11 characters, each from the 64-symbol alphabet.
\<close>

theorem slugify_shape:
  "slugify cm rnd ttl = slugify_pkg cm ttl @ ''-'' @ generateUniqueSuffix rnd 11 \<and>
   list_all slug_char (slugify_pkg cm ttl) \<and>
   length (generateUniqueSuffix rnd 11) = 11 \<and>
   list_all (\<lambda>c. c \<in> set charset) (generateUniqueSuffix rnd 11)"
proof (intro conjI)
  show "slugify cm rnd ttl = slugify_pkg cm ttl @ ''-'' @ generateUniqueSuffix rnd 11"
    by (simp add: slugify_def)
  show "list_all slug_char (slugify_pkg cm ttl)" by (rule slugify_pkg_chars)
  show "length (generateUniqueSuffix rnd 11) = 11" by (rule generateUniqueSuffix_length)
  show "list_all (\<lambda>c. c \<in> set charset) (generateUniqueSuffix rnd 11)"
    by (rule generateUniqueSuffix_in_charset)
qed

section \<open>Properties of tag reconciliation and article creation\<close>

lemma unique_step_eq:
  "unique_step acc item = (if item \<in> set acc \<or> item \<in> set inherited then acc else acc @ [item])"
  by (simp add: unique_step_def)

lemma unique_foldl:
  "distinct acc \<Longrightarrow>
   distinct (foldl unique_step acc xs) \<and>
   set (foldl unique_step acc xs) = set acc \<union> (set xs - set inherited)"
proof (induction xs arbitrary: acc)
  case Nil
  then show ?case by simp
next
  case (Cons x xs)
  show ?case
  proof (cases "x \<in> set acc \<or> x \<in> set inherited")
    case True
    then have "unique_step acc x = acc"
      by (simp add: unique_step_eq)
    with Cons.IH [OF Cons.prems] True show ?thesis
      by auto
  next
    case False
    then have step: "unique_step acc x = acc @ [x]"
      by (simp add: unique_step_eq)
    from False Cons.prems have "distinct (acc @ [x])"
      by simp
    from Cons.IH [OF this] False show ?thesis
      by (auto simp: step)
  qed
qed

lemma set_object_values: "set (object_values ks) = set ks"
  by (auto simp: object_values_def)

lemma distinct_object_values: "distinct ks \<Longrightarrow> distinct (object_values ks)"
  by (auto simp: object_values_def)

lemma distinct_unique: "distinct (unique xs)"
  using unique_foldl [of "[]" xs] by (simp add: unique_def distinct_object_values)

lemma set_unique: "set (unique xs) = set xs - set inherited"
  using unique_foldl [of "[]" xs] by (simp add: unique_def set_object_values)

lemma diff_filter:
  "set root \<inter> set inherited = {} \<Longrightarrow> diff root other = filter (\<lambda>a. a \<notin> set other) root"
  by (auto simp: diff_def intro: filter_cong)

lemma length_new_rows: "length (new_rows e n dtos) = length dtos"
  by (simp add: new_rows_def)

lemma names_new_rows: "map tag_name (new_rows e n dtos) = map ctd_name dtos"
  by (rule nth_equalityI) (simp_all add: new_rows_def)

lemma distinct_map_filter_names:
  "distinct (map f xs) \<Longrightarrow> distinct (map f (filter P xs))"
  by (induction xs) auto

lemma attempt_ok:
  "\<not> fails e c \<Longrightarrow>
   attempt e c run w = (Inr (fst (run (w\<lparr>trace := trace w @ [c]\<rparr>))),
                        snd (run (w\<lparr>trace := trace w @ [c]\<rparr>)))"
  by (simp add: attempt_def Let_def split: prod.split)

lemma attempt_fails:
  "fails e c \<Longrightarrow> attempt e c run w = (Inl Failure, w\<lparr>trace := trace w @ [c]\<rparr>)"
  by (simp add: attempt_def Let_def)

lemma andThen_Inr: "m w = (Inr v, w') \<Longrightarrow> andThen m f w = f v w'"
  by (simp add: andThen_def)

lemma andThen_Inl: "m w = (Inl err, w') \<Longrightarrow> andThen m f w = (Inl err, w')"
  by (simp add: andThen_def)

text \<open>The run of the reconciliation when the storage layer accepts the tag calls.\<close>

lemma reconcileTags_run:
  assumes ne: "unique names \<noteq> []"
    and f1: "\<not> fails e TagsFindByNames"
    and f2: "\<not> fails e TagsCreateMany"
  shows "reconcileTags e names w =
     (Inr (Some (filter (\<lambda>t. tag_name t \<in> set (unique names)) (tags w) @
                 new_rows e (length (tags w))
                   (map (\<lambda>n. \<lparr>ctd_name = n\<rparr>)
                      (filter (\<lambda>n. n \<notin> tag_name ` set (tags w)) (unique names))))),
      w\<lparr>trace := trace w @
           (if filter (\<lambda>n. n \<notin> tag_name ` set (tags w)) (unique names) = []
            then [TagsFindByNames]
            else [TagsFindByNames, TagsToCreateTagDtos, TagsCreateMany]),
        tags := tags w @
           new_rows e (length (tags w))
             (map (\<lambda>n. \<lparr>ctd_name = n\<rparr>)
                (filter (\<lambda>n. n \<notin> tag_name ` set (tags w)) (unique names)))\<rparr>)"
proof -
  let ?u = "unique names"
  let ?found = "filter (\<lambda>t. tag_name t \<in> set ?u) (tags w)"
  let ?missing = "filter (\<lambda>n. n \<notin> tag_name ` set (tags w)) ?u"
  let ?tags0 = "if ?found = [] \<and> findNull e then None else Some ?found"
  let ?w1 = "w\<lparr>trace := trace w @ [TagsFindByNames]\<rparr>"
  have look: "findByNames e ?u w = (Inr ?tags0, ?w1)"
    using f1 by (simp add: findByNames_def attempt_ok Let_def)
  have names0: "(case ?tags0 of None \<Rightarrow> [] | Some ts \<Rightarrow> map tag_name ts) = map tag_name ?found"
    by simp
  have rows0: "(case ?tags0 of None \<Rightarrow> [] | Some ts \<Rightarrow> ts) = ?found"
    by simp
  have regular: "set ?u \<inter> set inherited = {}"
    by (auto simp: set_unique)
  have "filter (\<lambda>a. a \<notin> set (map tag_name ?found)) ?u = ?missing"
    by (rule filter_cong) auto
  then have new: "diff ?u (case ?tags0 of None \<Rightarrow> [] | Some ts \<Rightarrow> map tag_name ts) = ?missing"
    by (simp only: names0 diff_filter [OF regular])
  show ?thesis
  proof (cases "?missing = []")
    case True
    then have "set ?u \<subseteq> tag_name ` set (tags w)"
      by (auto simp: filter_empty_conv)
    with ne obtain n where "n \<in> set ?u" "n \<in> tag_name ` set (tags w)"
      by (cases ?u) auto
    then have "?found \<noteq> []"
      by (auto simp: filter_empty_conv)
    then have t0: "?tags0 = Some ?found" by simp
    have "reconcileTags e names w = (Inr ?tags0, ?w1)"
      unfolding reconcileTags_def Let_def
      by (simp only: andThen_Inr [where m = "findByNames e ?u" and w = w, OF look]
            new True) (simp add: succeed_def)
    with True t0 show ?thesis by (simp add: new_rows_def)
  next
    case False
    let ?dtos = "map (\<lambda>n. \<lparr>ctd_name = n\<rparr>) ?missing"
    let ?w2 = "?w1\<lparr>trace := trace ?w1 @ [TagsToCreateTagDtos]\<rparr>"
    have d: "toCreateTagDtos ?missing ?w1 = (Inr ?dtos, ?w2)"
      by (simp add: toCreateTagDtos_def)
    have c: "createMany e ?dtos ?w2 =
        (Inr (new_rows e (length (tags w)) ?dtos),
         ?w2\<lparr>trace := trace ?w2 @ [TagsCreateMany],
              tags := tags w @ new_rows e (length (tags w)) ?dtos\<rparr>)"
      using f2 by (simp add: createMany_def attempt_ok Let_def)
    have inner: "andThen (toCreateTagDtos ?missing) (\<lambda>dtos.
                   andThen (createMany e dtos) (\<lambda>newTags.
                     succeed (Some (?found @ newTags)))) ?w1 =
        (Inr (Some (?found @ new_rows e (length (tags w)) ?dtos)),
         ?w2\<lparr>trace := trace ?w2 @ [TagsCreateMany],
              tags := tags w @ new_rows e (length (tags w)) ?dtos\<rparr>)"
      by (simp only: andThen_Inr [where m = "toCreateTagDtos ?missing" and w = ?w1, OF d]
            andThen_Inr [where m = "createMany e ?dtos" and w = ?w2, OF c] succeed_def)
    from False have pos: "(0 < length ?missing) = True" by simp
    have "reconcileTags e names w =
        (Inr (Some (?found @ new_rows e (length (tags w)) ?dtos)),
         ?w2\<lparr>trace := trace ?w2 @ [TagsCreateMany],
              tags := tags w @ new_rows e (length (tags w)) ?dtos\<rparr>)"
      unfolding reconcileTags_def Let_def
      by (simp only: andThen_Inr [where m = "findByNames e ?u" and w = w, OF look]
            new rows0 pos if_True inner)
    with False show ?thesis by simp
  qed
qed

lemma names_of_created:
  "map tag_name (new_rows e n (map (\<lambda>n. \<lparr>ctd_name = n\<rparr>) ms)) = ms"
  by (simp add: names_new_rows comp_def)

lemma filter_key_singleton:
  "distinct (map f xs) \<Longrightarrow> x \<in> set xs \<Longrightarrow> filter (\<lambda>y. f y = f x) xs = [x]"
proof (induction xs)
  case Nil
  then show ?case by simp
next
  case (Cons y ys)
  show ?case
  proof (cases "x = y")
    case True
    from Cons.prems(1) have "f y \<notin> f ` set ys" by simp
    then have "\<forall>z \<in> set ys. f z \<noteq> f y" by (metis image_eqI)
    then have "filter (\<lambda>z. f z = f y) ys = []" by (simp add: filter_empty_conv)
    with True show ?thesis by simp
  next
    case False
    with Cons.prems have in_ys: "x \<in> set ys" by simp
    with Cons.prems(1) have "f y \<noteq> f x" by auto
    moreover from Cons.prems(1) in_ys have "filter (\<lambda>y. f y = f x) ys = [x]"
      by (simp add: Cons.IH)
    ultimately show ?thesis by simp
  qed
qed

lemma distinct_singleton_set: "distinct xs \<Longrightarrow> set xs = {b} \<Longrightarrow> xs = [b]"
proof (cases xs)
  case Nil
  assume "set xs = {b}"
  with Nil show ?thesis by simp
next
  case (Cons y ys)
  assume d: "distinct xs" and s: "set xs = {b}"
  from s Cons have "y = b" by auto
  moreover from d s Cons have "ys = []" by (cases ys) auto
  ultimately show ?thesis using Cons by simp
qed

lemma fold_max_ge_init: "b \<le> fold max xs (b::nat)"
proof (induction xs arbitrary: b)
  case Nil
  show ?case by simp
next
  case (Cons x xs)
  have "b \<le> max x b" by simp
  also have "\<dots> \<le> fold max xs (max x b)" by (rule Cons.IH)
  finally show ?case by simp
qed

lemma fold_max_ge_mem: "x \<in> set xs \<Longrightarrow> x \<le> fold max xs (b::nat)"
proof (induction xs arbitrary: b)
  case Nil
  then show ?case by simp
next
  case (Cons y ys)
  show ?case
  proof (cases "x = y")
    case True
    have "x \<le> max y b" using True by simp
    also have "\<dots> \<le> fold max ys (max y b)" by (rule fold_max_ge_init)
    finally show ?thesis by simp
  next
    case False
    with Cons.prems have "x \<in> set ys" by simp
    then show ?thesis by (simp add: Cons.IH)
  qed
qed

lemma fresh_id_gt: "a \<in> set arts \<Longrightarrow> art_id a < fresh_id arts"
  using fold_max_ge_mem [of "art_id a" "map art_id arts" 0]
  by (simp add: fresh_id_def less_Suc_eq_le)

lemma find_append_new: "\<forall>x \<in> set xs. \<not> P x \<Longrightarrow> P a \<Longrightarrow> find P (xs @ [a]) = Some a"
  by (induction xs) simp_all

lemma find_fresh:
  "art_id a = fresh_id arts \<Longrightarrow> find (\<lambda>x. art_id x = fresh_id arts) (arts @ [a]) = Some a"
proof (rule find_append_new)
  show "\<forall>x \<in> set arts. \<not> art_id x = fresh_id arts"
    using fresh_id_gt by fastforce
qed simp

text \<open>Persisting the payload and fetching the new article again (lines 76-78).\<close>

lemma persist_run:
  "andThen (articleRepository_create e p)
     (\<lambda>article. validateAndFetchArticleWithRelationsById e (art_id article)) w =
   (if fails e ArticlesCreate then (Inl Failure, w\<lparr>trace := trace w @ [ArticlesCreate]\<rparr>)
    else if fails e ArticlesFindByIdWithRelations
      then (Inl Failure,
            w\<lparr>trace := trace w @ [ArticlesCreate, ArticlesFindByIdWithRelations],
              articles := articles w @
                [\<lparr>art_id = fresh_id (articles w), title = p_title p, slug = p_slug p,
                  body = p_body p, author_id = p_author_id p, tagList = p_tagList p\<rparr>]\<rparr>)
      else (Inr \<lparr>art_id = fresh_id (articles w), title = p_title p, slug = p_slug p,
                 body = p_body p, author_id = p_author_id p, tagList = p_tagList p\<rparr>,
            w\<lparr>trace := trace w @ [ArticlesCreate, ArticlesFindByIdWithRelations],
              articles := articles w @
                [\<lparr>art_id = fresh_id (articles w), title = p_title p, slug = p_slug p,
                  body = p_body p, author_id = p_author_id p, tagList = p_tagList p\<rparr>]\<rparr>))"
proof (cases "fails e ArticlesCreate")
  case True
  then show ?thesis
    by (simp add: andThen_def articleRepository_create_def attempt_fails)
next
  case False
  let ?a = "\<lparr>art_id = fresh_id (articles w), title = p_title p, slug = p_slug p,
              body = p_body p, author_id = p_author_id p, tagList = p_tagList p\<rparr>"
  let ?w1 = "w\<lparr>trace := trace w @ [ArticlesCreate], articles := articles w @ [?a]\<rparr>"
  have c: "articleRepository_create e p w = (Inr ?a, ?w1)"
    using False by (simp add: articleRepository_create_def attempt_ok Let_def)
  have f: "find (\<lambda>x. art_id x = fresh_id (articles w)) (articles w @ [?a]) = Some ?a"
    by (rule find_fresh) simp
  have v: "validateAndFetchArticleWithRelationsById e (art_id ?a) ?w1 =
      (if fails e ArticlesFindByIdWithRelations
       then (Inl Failure, ?w1\<lparr>trace := trace ?w1 @ [ArticlesFindByIdWithRelations]\<rparr>)
       else (Inr ?a, ?w1\<lparr>trace := trace ?w1 @ [ArticlesFindByIdWithRelations]\<rparr>))"
    by (simp add: validateAndFetchArticleWithRelationsById_def andThen_def attempt_def
        articleRepository_findByIdWithRelations_def f succeed_def Let_def)
  have "andThen (articleRepository_create e p)
     (\<lambda>article. validateAndFetchArticleWithRelationsById e (art_id article)) w =
     validateAndFetchArticleWithRelationsById e (art_id ?a) ?w1"
    by (rule andThen_Inr [where m = "articleRepository_create e p", OF c])
  with False v show ?thesis by simp
qed

lemma createArticle_unfold:
  "createArticleWithTransaction e dto u w =
     andThen
       (case dto_tagList dto of
          None \<Rightarrow> succeed (Some [])
        | Some names \<Rightarrow> if length names > 0 then reconcileTags e names else succeed (Some []))
       (\<lambda>tags1.
          andThen (articleRepository_create e
                \<lparr>p_title = dto_title dto, p_body = dto_body dto,
                 p_author_id = jwt_id u, p_tagList = tags1,
                 p_slug = slugify (charMap e) (rng e) (dto_title dto)\<rparr>) (\<lambda>article.
               validateAndFetchArticleWithRelationsById e (art_id article))) w"
  by (simp add: createArticleWithTransaction_def Let_def)

lemma createArticle_no_tags:
  assumes "dto_tagList dto = None \<or> dto_tagList dto = Some []"
  shows "createArticleWithTransaction e dto u w =
     andThen (articleRepository_create e
                \<lparr>p_title = dto_title dto, p_body = dto_body dto,
                 p_author_id = jwt_id u, p_tagList = Some [],
                 p_slug = slugify (charMap e) (rng e) (dto_title dto)\<rparr>) (\<lambda>article.
               validateAndFetchArticleWithRelationsById e (art_id article)) w"
  using assms by (auto simp: createArticle_unfold andThen_def succeed_def)

text \<open>
  What the reconciliation does for regular names. For every non-empty list of requested
  tag names none of which is an inherited property name, duplicates included, on a tag
  table whose names are unique and with the storage layer accepting the calls: the
  reconciliation works on the deduplicated list, creates exactly one tag for every
  distinct name that has no tag record and none for the others, and the resolved tags
  (the found ones followed by the created ones) hold exactly one tag per distinct
  requested name; they are the tag list of the article that the creation flow returns
  when the storage layer accepts the insert and the fetch. The names of the table stay
  unique.
\<close>

lemma reconcile_regular_names:
  assumes ne: "names \<noteq> []"
    and reg: "set names \<inter> set inherited = {}"
    and inv: "distinct (map tag_name (tags w))"
    and f1: "\<not> fails e TagsFindByNames"
    and f2: "\<not> fails e TagsCreateMany"
  shows "\<exists>found created w'.
      distinct (unique names) \<and> set (unique names) = set names \<and>
      reconcileTags e names w = (Inr (Some (found @ created)), w') \<and>
      found = filter (\<lambda>t. tag_name t \<in> set names) (tags w) \<and>
      tags w' = tags w @ created \<and>
      map tag_name created = filter (\<lambda>n. n \<notin> tag_name ` set (tags w)) (unique names) \<and>
      distinct (map tag_name (found @ created)) \<and>
      set (map tag_name (found @ created)) = set names \<and>
      distinct (map tag_name (tags w')) \<and>
      (dto_tagList dto = Some names \<and> \<not> fails e ArticlesCreate \<and>
       \<not> fails e ArticlesFindByIdWithRelations \<longrightarrow>
         (\<exists>a w''. createArticleWithTransaction e dto u w = (Inr a, w'') \<and>
            tagList a = Some (found @ created) \<and> tags w'' = tags w'))"
proof -
  have su: "set (unique names) = set names"
    using reg by (auto simp: set_unique)
  with ne have une: "unique names \<noteq> []"
    by (metis set_empty)
  let ?found = "filter (\<lambda>t. tag_name t \<in> set names) (tags w)"
  let ?missing = "filter (\<lambda>n. n \<notin> tag_name ` set (tags w)) (unique names)"
  let ?created = "new_rows e (length (tags w)) (map (\<lambda>n. \<lparr>ctd_name = n\<rparr>) ?missing)"
  let ?w' = "w\<lparr>trace := trace w @
           (if ?missing = [] then [TagsFindByNames]
            else [TagsFindByNames, TagsToCreateTagDtos, TagsCreateMany]),
        tags := tags w @ ?created\<rparr>"
  have run: "reconcileTags e names w = (Inr (Some (?found @ ?created)), ?w')"
    using reconcileTags_run [OF une f1 f2, of w] by (simp only: su)
  have cn: "map tag_name ?created = ?missing"
    by (rule names_of_created)
  have dm: "distinct ?missing"
    by (simp add: distinct_unique)
  have df: "distinct (map tag_name ?found)"
    using inv by (rule distinct_map_filter_names)
  have d1: "distinct (map tag_name (?found @ ?created))"
    using df dm by (auto simp: cn)
  have s1: "set (map tag_name (?found @ ?created)) = set names"
    by (auto simp: cn su)
  have d2: "distinct (map tag_name (tags ?w'))"
    using inv dm by (auto simp: cn)
  let ?step = "case dto_tagList dto of
          None \<Rightarrow> succeed (Some [])
        | Some names \<Rightarrow> if length names > 0 then reconcileTags e names else succeed (Some [])"
  have art: "\<exists>a w''. createArticleWithTransaction e dto u w = (Inr a, w'') \<and>
         tagList a = Some (?found @ ?created) \<and> tags w'' = tags ?w'"
    if dto: "dto_tagList dto = Some names" and f3: "\<not> fails e ArticlesCreate"
      and f4: "\<not> fails e ArticlesFindByIdWithRelations"
  proof -
    have step: "?step w = (Inr (Some (?found @ ?created)), ?w')"
      using ne dto run by simp
    show ?thesis
      unfolding createArticle_unfold
      by (simp only: andThen_Inr [where m = ?step, OF step] persist_run) (simp add: f3 f4)
  qed
  have "distinct (unique names)"
    by (rule distinct_unique)
  with su run cn d1 s1 d2 art show ?thesis
    by (intro exI [of _ ?found] exI [of _ ?created] exI [of _ ?w']) simp
qed

text \<open>
  Claim C2 holds for regular names, as the lemma above says, and fails on the code for
  a name that every JavaScript object inherits. The request asks twice for the tag
  \<open>constructor\<close>, which has no record: \<^verbatim>\<open>unique\<close> drops the name, so nothing is looked
  up by it, no tag is created, and the article is persisted with the empty tag list,
  where the claim has one tag \<open>constructor\<close> created and resolved.
\<close>

theorem reconcile_drops_inherited_name:
  "''constructor'' \<notin> tag_name ` set (tags demo_world) \<and>
   unique [''constructor'', ''constructor''] = [] \<and>
   reconcileTags demo_env [''constructor'', ''constructor''] demo_world =
     (Inr (Some []), demo_world\<lparr>trace := [TagsFindByNames]\<rparr>) \<and>
   fst (createArticleWithTransaction demo_env demo_dto_constructor demo_actor demo_world) =
     Inr \<lparr>art_id = 2, title = ''Hello, World!'', slug = ''hello-world-TTTTTTTTTTT'',
          body = ''text'', author_id = 2, tagList = Some []\<rparr> \<and>
   tags (snd (createArticleWithTransaction demo_env demo_dto_constructor demo_actor demo_world)) =
     tags demo_world"
  by code_simp

text \<open>
  What the reconciliation does for one existing and one new regular name. When the
  requested names are one name with an existing tag record and one name without,
  neither an inherited property name, on a tag table whose names are unique and with
  the storage layer accepting the calls, the reconciliation creates exactly one tag,
  for the missing name, and resolves the other name to the existing tag; afterwards the
  table still has one tag for each of the two names.
\<close>

lemma reconcile_existing_and_new_regular:
  assumes names: "set names = {a, b}" and ab: "a \<noteq> b"
    and reg: "a \<notin> set inherited" "b \<notin> set inherited"
    and inv: "distinct (map tag_name (tags w))"
    and t: "t \<in> set (tags w)" "tag_name t = a"
    and b: "b \<notin> tag_name ` set (tags w)"
    and f1: "\<not> fails e TagsFindByNames"
    and f2: "\<not> fails e TagsCreateMany"
  shows "\<exists>created w'.
      reconcileTags e names w = (Inr (Some [t, created]), w') \<and>
      tag_name created = b \<and>
      tags w' = tags w @ [created] \<and>
      filter (\<lambda>x. tag_name x = a) (tags w') = [t] \<and>
      filter (\<lambda>x. tag_name x = b) (tags w') = [created]"
proof -
  let ?created = "\<lparr>tag_id = newTagId e (length (tags w)), tag_name = b\<rparr>"
  have su: "set (unique names) = {a, b}"
    using names reg by (auto simp: set_unique)
  then have une: "unique names \<noteq> []"
    by auto
  have "filter (\<lambda>x. tag_name x \<in> set (unique names)) (tags w) =
      filter (\<lambda>x. tag_name x = tag_name t) (tags w)"
    using su b t by (intro filter_cong) auto
  also have "\<dots> = [t]"
    using inv t(1) by (rule filter_key_singleton)
  finally have found: "filter (\<lambda>x. tag_name x \<in> set (unique names)) (tags w) = [t]" .
  have "set (filter (\<lambda>n. n \<notin> tag_name ` set (tags w)) (unique names)) = {b}"
    using su b t by auto
  moreover have "distinct (filter (\<lambda>n. n \<notin> tag_name ` set (tags w)) (unique names))"
    by (simp add: distinct_unique)
  ultimately have missing: "filter (\<lambda>n. n \<notin> tag_name ` set (tags w)) (unique names) = [b]"
    by (rule distinct_singleton_set [rotated])
  have rows: "new_rows e (length (tags w)) [\<lparr>ctd_name = b\<rparr>] = [?created]"
    by (simp add: new_rows_def)
  have run: "reconcileTags e names w =
      (Inr (Some [t, ?created]),
       w\<lparr>trace := trace w @ [TagsFindByNames, TagsToCreateTagDtos, TagsCreateMany],
         tags := tags w @ [?created]\<rparr>)"
    using reconcileTags_run [OF une f1 f2, of w] by (simp add: found missing rows)
  have fa: "filter (\<lambda>x. tag_name x = a) (tags w) = [t]"
    using filter_key_singleton [OF inv t(1)] t(2) by simp
  have fb: "filter (\<lambda>x. tag_name x = b) (tags w) = []"
    using b by (auto simp: filter_empty_conv)
  show ?thesis
    using run ab fa fb
    by (intro exI [of _ ?created]
          exI [of _ "w\<lparr>trace := trace w @ [TagsFindByNames, TagsToCreateTagDtos, TagsCreateMany],
                      tags := tags w @ [?created]\<rparr>"]) simp
qed

text \<open>
  Claim C3 holds for regular names, as the lemma above says, and fails on the code when
  the new name is one that every JavaScript object inherits. The tag \<open>nestjs\<close> has a
  record and \<open>constructor\<close> has none: \<^verbatim>\<open>unique\<close> drops \<open>constructor\<close>, so the
  reconciliation resolves the existing tag and creates no tag at all, where the claim
  has exactly one tag created.
\<close>

theorem reconcile_skips_new_inherited_name:
  "demo_tag \<in> set (tags demo_world) \<and> tag_name demo_tag = ''nestjs'' \<and>
   ''constructor'' \<notin> tag_name ` set (tags demo_world) \<and>
   unique [''nestjs'', ''constructor''] = [''nestjs''] \<and>
   reconcileTags demo_env [''nestjs'', ''constructor''] demo_world =
     (Inr (Some [demo_tag]), demo_world\<lparr>trace := [TagsFindByNames]\<rparr>) \<and>
   tags (snd (reconcileTags demo_env [''nestjs'', ''constructor''] demo_world)) = tags demo_world"
  by code_simp

text \<open>
  Claim C7. When the request's tag list is absent or empty, the creation flow makes no
  call to the tag service (no lookup, no dto conversion, no creation), leaves the tag
  table as it was, and the article it persists has the empty tag list.
\<close>

theorem create_without_tags:
  assumes "dto_tagList dto = None \<or> dto_tagList dto = Some []"
  shows "\<exists>r w' cs. createArticleWithTransaction e dto u w = (r, w') \<and>
      tags w' = tags w \<and>
      trace w' = trace w @ cs \<and> list_all (\<lambda>c. \<not> is_tag_call c) cs \<and>
      (if fails e ArticlesCreate then articles w' = articles w
       else \<exists>a. articles w' = articles w @ [a] \<and> tagList a = Some [])"
proof (cases "fails e ArticlesCreate")
  case True
  then show ?thesis
    by (simp add: createArticle_no_tags [OF assms] persist_run is_tag_call_def)
next
  case False
  then show ?thesis
    by (cases "fails e ArticlesFindByIdWithRelations")
      (simp_all add: createArticle_no_tags [OF assms] persist_run is_tag_call_def)
qed

theorem create_without_tags_witness:
  "(dto_tagList demo_dto_no_tags = None \<or> dto_tagList demo_dto_no_tags = Some []) \<and>
   (\<exists>r w' cs. createArticleWithTransaction demo_env demo_dto_no_tags demo_actor demo_world = (r, w') \<and>
      tags w' = tags demo_world \<and>
      trace w' = trace demo_world @ cs \<and> list_all (\<lambda>c. \<not> is_tag_call c) cs \<and>
      (if fails demo_env ArticlesCreate then articles w' = articles demo_world
       else \<exists>a. articles w' = articles demo_world @ [a] \<and> tagList a = Some []))"
proof -
  have h: "dto_tagList demo_dto_no_tags = None \<or> dto_tagList demo_dto_no_tags = Some []"
    by (simp add: demo_dto_no_tags_def)
  note concl = create_without_tags [OF h, of demo_env demo_actor demo_world]
  from h concl show ?thesis
    by (intro conjI)
qed

text \<open>
  Claim C1. \<^verbatim>\<open>create\<close> runs the whole creation flow through the transaction manager:
  whenever it fails, at whatever step, the tag, article and comment tables are the ones
  from before the request, so no article row and no tag row of the failed request
  remains.
\<close>

theorem create_rolls_back:
  assumes failed: "fst (create e dto u w) = Inl err"
  shows "tags (snd (create e dto u w)) = tags w \<and>
   articles (snd (create e dto u w)) = articles w \<and>
   comments (snd (create e dto u w)) = comments w"
proof -
  obtain r w1 where inner: "createArticleWithTransaction e dto u w = (r, w1)"
    by (cases "createArticleWithTransaction e dto u w")
  show ?thesis
  proof (cases r)
    case (Inl x)
    with inner have "create e dto u w =
        (Inl x, w1\<lparr>tags := tags w, articles := articles w, comments := comments w\<rparr>)"
      by (simp add: create_def runInTransaction_def)
    then show ?thesis
      by simp
  next
    case (Inr v)
    with inner have "create e dto u w = (Inr v, w1)"
      by (simp add: create_def runInTransaction_def)
    with failed show ?thesis
      by simp
  qed
qed

text \<open>
  An insert that the storage layer rejects after the tag \<open>isabelle\<close> was created: the
  flow itself has added the tag row, the transaction leaves none.
\<close>

theorem create_rolls_back_witness:
  "fst (create demo_failing_env demo_dto demo_actor demo_world) = Inl Failure \<and>
   tags (snd (createArticleWithTransaction demo_failing_env demo_dto demo_actor demo_world)) \<noteq>
     tags demo_world \<and>
   tags (snd (create demo_failing_env demo_dto demo_actor demo_world)) = tags demo_world \<and>
   articles (snd (create demo_failing_env demo_dto demo_actor demo_world)) = articles demo_world \<and>
   comments (snd (create demo_failing_env demo_dto demo_actor demo_world)) = comments demo_world"
proof -
  have h: "fst (create demo_failing_env demo_dto demo_actor demo_world) = Inl Failure"
    by code_simp
  have partial:
    "tags (snd (createArticleWithTransaction demo_failing_env demo_dto demo_actor demo_world)) \<noteq>
     tags demo_world"
    by code_simp
  note concl = create_rolls_back [OF h]
  from h partial concl show ?thesis
    by (intro conjI) simp_all
qed

section \<open>Properties of article update\<close>

lemma find_holds: "find P xs = Some x \<Longrightarrow> P x \<and> x \<in> set xs"
  by (induction xs) (auto split: if_splits)

lemma find_map_same_key:
  "(\<And>x. k (f x) = k x) \<Longrightarrow> find (\<lambda>x. k x = i) (map f xs) = map_option f (find (\<lambda>x. k x = i) xs)"
  by (induction xs) simp_all

lemma update_found:
  assumes "articleRepository_findById i w = Some a"
  shows "update e i dto w =
     (Inr (Some (apply_payload (update_payload e a dto) a)),
      w\<lparr>articles := map (\<lambda>x. if art_id x = i then apply_payload (update_payload e a dto) x else x)
                      (articles w)\<rparr>)"
proof -
  let ?p = "update_payload e a dto"
  let ?f = "\<lambda>x. if art_id x = i then apply_payload ?p x else x"
  from assms have ida: "art_id a = i" and fnd: "find (\<lambda>x. art_id x = i) (articles w) = Some a"
    using find_holds [of "\<lambda>x. art_id x = i" "articles w" a]
    by (simp_all add: articleRepository_findById_def)
  have key: "\<And>x. art_id (?f x) = art_id x"
    by (simp add: apply_payload_def)
  have "find (\<lambda>x. art_id x = i) (map ?f (articles w)) = map_option ?f (find (\<lambda>x. art_id x = i) (articles w))"
    using key by (rule find_map_same_key)
  then have again: "find (\<lambda>x. art_id x = i) (map ?f (articles w)) = Some (apply_payload ?p a)"
    using fnd ida by simp
  have idp: "art_id (apply_payload ?p a) = i"
    using ida by (simp add: apply_payload_def)
  show ?thesis
    using assms ida idp again
    by (simp add: update_def andThen_def validateAndFetchArticleById_def
        articleRepository_update_def articleRepository_findByIdWithRelations_def)
qed

text \<open>
  Claim C6. \<^verbatim>\<open>update\<close> signals NotFound, changing nothing, when the id resolves to no
  article. For an existing article the payload carries a slug only if a title was
  supplied and differs from the article's title (the slug is then generated from that
  title); the returned article has the payload's slug when there is one and its old
  slug otherwise. In particular, a title equal to the current one leaves the slug out
  of the payload, and no stored slug changes.
\<close>

theorem update_slug_rule:
  "(articleRepository_findById i w = None \<longrightarrow> update e i dto w = (Inl NotFound, w)) \<and>
   (\<forall>a. articleRepository_findById i w = Some a \<longrightarrow>
      (\<forall>s. pl_slug (update_payload e a dto) = Some s \<longrightarrow>
         (\<exists>t. upd_title dto = Some t \<and> t \<noteq> [] \<and> t \<noteq> title a \<and>
              s = slugify (charMap e) (rng e) t)) \<and>
      (\<forall>t. upd_title dto = Some t \<and> t \<noteq> [] \<and> t \<noteq> title a \<longrightarrow>
         pl_slug (update_payload e a dto) = Some (slugify (charMap e) (rng e) t)) \<and>
      (\<exists>w'. update e i dto w = (Inr (Some (apply_payload (update_payload e a dto) a)), w') \<and>
         slug (apply_payload (update_payload e a dto) a) =
           (case pl_slug (update_payload e a dto) of None \<Rightarrow> slug a | Some s \<Rightarrow> s)) \<and>
      (upd_title dto = Some (title a) \<longrightarrow>
         pl_slug (update_payload e a dto) = None \<and>
         slug (apply_payload (update_payload e a dto) a) = slug a \<and>
         map slug (articles (snd (update e i dto w))) = map slug (articles w)))"
proof (intro conjI allI impI)
  assume "articleRepository_findById i w = None"
  then show "update e i dto w = (Inl NotFound, w)"
    by (simp add: update_def andThen_def validateAndFetchArticleById_def)
next
  fix a :: Article and s
  assume "pl_slug (update_payload e a dto) = Some s"
  then show "\<exists>t. upd_title dto = Some t \<and> t \<noteq> [] \<and> t \<noteq> title a \<and>
              s = slugify (charMap e) (rng e) t"
    by (auto simp: update_payload_def split: option.splits if_splits)
next
  fix a :: Article and t
  assume "upd_title dto = Some t \<and> t \<noteq> [] \<and> t \<noteq> title a"
  then show "pl_slug (update_payload e a dto) = Some (slugify (charMap e) (rng e) t)"
    by (simp add: update_payload_def)
next
  fix a :: Article
  assume "articleRepository_findById i w = Some a"
  then show "\<exists>w'. update e i dto w = (Inr (Some (apply_payload (update_payload e a dto) a)), w') \<and>
         slug (apply_payload (update_payload e a dto) a) =
           (case pl_slug (update_payload e a dto) of None \<Rightarrow> slug a | Some s \<Rightarrow> s)"
    by (simp add: update_found apply_payload_def)
next
  fix a :: Article
  assume "upd_title dto = Some (title a)"
  then show "pl_slug (update_payload e a dto) = None"
    by (simp add: update_payload_def)
next
  fix a :: Article
  assume "upd_title dto = Some (title a)"
  then show "slug (apply_payload (update_payload e a dto) a) = slug a"
    by (simp add: update_payload_def apply_payload_def)
next
  fix a :: Article
  assume fa: "articleRepository_findById i w = Some a" and same: "upd_title dto = Some (title a)"
  then have "pl_slug (update_payload e a dto) = None"
    by (simp add: update_payload_def)
  then have "\<And>x. slug (if art_id x = i then apply_payload (update_payload e a dto) x else x) = slug x"
    by (simp add: apply_payload_def)
  then show "map slug (articles (snd (update e i dto w))) = map slug (articles w)"
    by (simp add: update_found [OF fa] comp_def)
qed

theorem update_slug_rule_witness:
  "update demo_env 2 \<lparr>upd_title = Some ''Hello'', upd_body = None\<rparr> demo_world =
     (Inl NotFound, demo_world) \<and>
   pl_slug (update_payload demo_env demo_article \<lparr>upd_title = Some ''Hello'', upd_body = None\<rparr>) = None \<and>
   map slug (articles (snd (update demo_env 1 \<lparr>upd_title = Some ''Hello'', upd_body = None\<rparr> demo_world))) =
     map slug (articles demo_world) \<and>
   pl_slug (update_payload demo_env demo_article \<lparr>upd_title = Some ''World'', upd_body = None\<rparr>) =
     Some (slugify (charMap demo_env) (rng demo_env) ''World'') \<and>
   slugify (charMap demo_env) (rng demo_env) ''World'' = ''world-TTTTTTTTTTT'' \<and>
   (\<exists>t. upd_title \<lparr>upd_title = Some ''World'', upd_body = None\<rparr> = Some t \<and> t \<noteq> [] \<and>
        t \<noteq> title demo_article \<and>
        slugify (charMap demo_env) (rng demo_env) ''World'' = slugify (charMap demo_env) (rng demo_env) t)"
proof -
  let ?same = "\<lparr>upd_title = Some ''Hello'', upd_body = None\<rparr>"
  let ?other = "\<lparr>upd_title = Some ''World'', upd_body = None\<rparr>"
  have absent: "articleRepository_findById 2 demo_world = None"
    by (simp add: articleRepository_findById_def demo_world_def demo_article_def)
  have present: "articleRepository_findById 1 demo_world = Some demo_article"
    by (simp add: articleRepository_findById_def demo_world_def demo_article_def)
  have same: "upd_title ?same = Some (title demo_article)"
    by (simp add: demo_article_def)
  have changed: "upd_title ?other = Some ''World'' \<and> ''World'' \<noteq> [] \<and> ''World'' \<noteq> title demo_article"
    by (simp add: demo_article_def)
  have slugval: "slugify (charMap demo_env) (rng demo_env) ''World'' = ''world-TTTTTTTTTTT''"
    by code_simp
  from update_slug_rule [of 2 demo_world demo_env ?same] absent
  have a: "update demo_env 2 ?same demo_world = (Inl NotFound, demo_world)"
    by blast
  from update_slug_rule [of 1 demo_world demo_env ?same] present same
  have b: "pl_slug (update_payload demo_env demo_article ?same) = None \<and>
     map slug (articles (snd (update demo_env 1 ?same demo_world))) = map slug (articles demo_world)"
    by blast
  from update_slug_rule [of 1 demo_world demo_env ?other] present changed
  have c: "pl_slug (update_payload demo_env demo_article ?other) =
      Some (slugify (charMap demo_env) (rng demo_env) ''World'')"
    by blast
  from update_slug_rule [of 1 demo_world demo_env ?other] present c
  have d: "\<exists>t. upd_title ?other = Some t \<and> t \<noteq> [] \<and> t \<noteq> title demo_article \<and>
        slugify (charMap demo_env) (rng demo_env) ''World'' = slugify (charMap demo_env) (rng demo_env) t"
    by blast
  from a b c d slugval show ?thesis
    by (intro conjI) simp_all
qed

section \<open>Properties of comment removal\<close>

lemma comments_remove_unfold:
  "comments_remove i u w =
     (case commentRepository_findById i w of
        None \<Rightarrow> (Inl NotFound, w)
      | Some c \<Rightarrow>
          if map_option user_id (author c) = Some (jwt_id u)
          then (Inr (), commentRepository_remove i w)
          else (Inl Unauthorized, w))"
  by (cases "commentRepository_findById i w")
    (simp_all add: comments_remove_def andThen_def validateAndFetchComment_def throw_def)

lemma find_after_remove:
  "commentRepository_findById i (commentRepository_remove i w) = None"
  by (simp add: commentRepository_findById_def commentRepository_remove_def find_None_iff)

lemma removeComment_unfold:
  "removeComment i s u w =
     (case articleRepository_findBySlug s w of
        None \<Rightarrow> (Inl NotFound, w)
      | Some a \<Rightarrow> comments_remove i u w)"
  by (simp add: removeComment_def andThen_def validateArticle_def split: option.split)

lemma demo_find5:
  "commentRepository_findById 5 demo_world = Some demo_comment_other_article"
  by (simp add: commentRepository_findById_def demo_world_def demo_comment_other_article_def)

lemma demo_find6:
  "commentRepository_findById 6 demo_world = Some demo_comment_no_author"
  by (simp add: commentRepository_findById_def demo_world_def demo_comment_other_article_def
      demo_comment_no_author_def)

lemma demo_find7: "commentRepository_findById 7 demo_world = None"
  by (simp add: commentRepository_findById_def demo_world_def demo_comment_other_article_def
      demo_comment_no_author_def)

lemma demo_slug: "articleRepository_findBySlug ''hello-useandom26T'' demo_world = Some demo_article"
  by (simp add: articleRepository_findBySlug_def demo_world_def demo_article_def)

text \<open>
  Claim C8. \<^verbatim>\<open>CommentsService.remove\<close> fetches the comment first. When there is none it
  signals NotFound and the state is unchanged; when the comment exists and the actor is
  not its author it signals Unauthorized and the state is unchanged; when the actor is
  its author the comment is deleted, and fetching it afterwards signals NotFound.
\<close>

theorem comments_remove_outcomes:
  "(commentRepository_findById i w = None \<longrightarrow>
      comments_remove i u w = (Inl NotFound, w)) \<and>
   (\<forall>c. commentRepository_findById i w = Some c \<and>
        map_option user_id (author c) \<noteq> Some (jwt_id u) \<longrightarrow>
      comments_remove i u w = (Inl Unauthorized, w)) \<and>
   (\<forall>c. commentRepository_findById i w = Some c \<and>
        map_option user_id (author c) = Some (jwt_id u) \<longrightarrow>
      (\<exists>w'. comments_remove i u w = (Inr (), w') \<and>
            comments w' = filter (\<lambda>x. comment_id x \<noteq> i) (comments w) \<and>
            commentRepository_findById i w' = None \<and>
            validateAndFetchComment i w' = (Inl NotFound, w')))"
proof (intro conjI allI impI)
  assume "commentRepository_findById i w = None"
  then show "comments_remove i u w = (Inl NotFound, w)"
    by (simp add: comments_remove_unfold)
next
  fix c
  assume "commentRepository_findById i w = Some c \<and>
    map_option user_id (author c) \<noteq> Some (jwt_id u)"
  then show "comments_remove i u w = (Inl Unauthorized, w)"
    by (simp add: comments_remove_unfold)
next
  fix c
  assume a: "commentRepository_findById i w = Some c \<and>
    map_option user_id (author c) = Some (jwt_id u)"
  let ?w' = "commentRepository_remove i w"
  have "comments_remove i u w = (Inr (), ?w')"
    using a by (simp add: comments_remove_unfold)
  moreover have "comments ?w' = filter (\<lambda>x. comment_id x \<noteq> i) (comments w)"
    by (simp add: commentRepository_remove_def)
  moreover have "commentRepository_findById i ?w' = None"
    by (rule find_after_remove)
  moreover have "validateAndFetchComment i ?w' = (Inl NotFound, ?w')"
    by (simp add: validateAndFetchComment_def find_after_remove)
  ultimately show "\<exists>w'. comments_remove i u w = (Inr (), w') \<and>
            comments w' = filter (\<lambda>x. comment_id x \<noteq> i) (comments w) \<and>
            commentRepository_findById i w' = None \<and>
            validateAndFetchComment i w' = (Inl NotFound, w')"
    by blast
qed

theorem comments_remove_outcomes_witness:
  "comments_remove 7 demo_actor demo_world = (Inl NotFound, demo_world) \<and>
   comments_remove 5 demo_stranger demo_world = (Inl Unauthorized, demo_world) \<and>
   (\<exists>w'. comments_remove 5 demo_actor demo_world = (Inr (), w') \<and>
         comments w' = filter (\<lambda>x. comment_id x \<noteq> 5) (comments demo_world) \<and>
         commentRepository_findById 5 w' = None \<and>
         validateAndFetchComment 5 w' = (Inl NotFound, w'))"
  using comments_remove_outcomes [of 7 demo_world demo_actor]
    comments_remove_outcomes [of 5 demo_world demo_stranger]
    comments_remove_outcomes [of 5 demo_world demo_actor]
  by (simp add: demo_find5 demo_find7 demo_comment_other_article_def demo_actor_def
      demo_stranger_def)

text \<open>
  Claim C9. \<^verbatim>\<open>removeComment\<close> only checks that the slug resolves to some article: for
  every existing slug and every existing comment whose author is the actor, it deletes
  the comment, whatever article the comment belongs to.
\<close>

theorem removeComment_ignores_article:
  assumes art: "articleRepository_findBySlug s w = Some a"
    and com: "commentRepository_findById i w = Some c"
    and own: "map_option user_id (author c) = Some (jwt_id u)"
  shows "removeComment i s u w = (Inr (), commentRepository_remove i w) \<and>
   commentRepository_findById i (commentRepository_remove i w) = None"
proof
  have "removeComment i s u w = comments_remove i u w"
    using art by (simp add: removeComment_unfold)
  also have "\<dots> = (Inr (), commentRepository_remove i w)"
    using com own by (simp add: comments_remove_unfold)
  finally show "removeComment i s u w = (Inr (), commentRepository_remove i w)" .
  show "commentRepository_findById i (commentRepository_remove i w) = None"
    by (rule find_after_remove)
qed

text \<open>The comment deleted here belongs to article 9, the slug resolves to article 1.\<close>

theorem removeComment_ignores_article_witness:
  "comment_article_id demo_comment_other_article \<noteq> art_id demo_article \<and>
   articleRepository_findBySlug ''hello-useandom26T'' demo_world = Some demo_article \<and>
   commentRepository_findById 5 demo_world = Some demo_comment_other_article \<and>
   removeComment 5 ''hello-useandom26T'' demo_actor demo_world =
     (Inr (), commentRepository_remove 5 demo_world) \<and>
   commentRepository_findById 5 (commentRepository_remove 5 demo_world) = None"
proof -
  have differ: "comment_article_id demo_comment_other_article \<noteq> art_id demo_article"
    by (simp add: demo_comment_other_article_def demo_article_def)
  have own: "map_option user_id (author demo_comment_other_article) = Some (jwt_id demo_actor)"
    by (simp add: demo_comment_other_article_def demo_actor_def)
  note concl = removeComment_ignores_article [OF demo_slug demo_find5 own]
  from differ demo_slug demo_find5 concl show ?thesis
    by (intro conjI) simp_all
qed

text \<open>
  Claim C10. \<^verbatim>\<open>CommentsService.remove\<close> compares the id of the fetched comment's
  populated author with the actor's id: when the fetched comment has no author
  populated, it signals Unauthorized for every actor and nothing is deleted, also for
  the actor whose id is the comment's stored author id.
\<close>

theorem comments_remove_author_not_populated:
  assumes com: "commentRepository_findById i w = Some c"
    and none: "author c = None"
  shows "comments_remove i u w = (Inl Unauthorized, w)"
proof -
  from none have "map_option user_id (author c) \<noteq> Some (jwt_id u)"
    by simp
  with com show ?thesis
    by (simp add: comments_remove_unfold)
qed

theorem comments_remove_author_not_populated_witness:
  "commentRepository_findById 6 demo_world = Some demo_comment_no_author \<and>
   author demo_comment_no_author = None \<and>
   comment_author_id demo_comment_no_author = jwt_id demo_actor \<and>
   comments_remove 6 demo_actor demo_world = (Inl Unauthorized, demo_world)"
proof -
  have none: "author demo_comment_no_author = None"
    by (simp add: demo_comment_no_author_def)
  have stored: "comment_author_id demo_comment_no_author = jwt_id demo_actor"
    by (simp add: demo_comment_no_author_def demo_actor_def)
  note concl = comments_remove_author_not_populated [OF demo_find6 none, where u = demo_actor]
  from demo_find6 none stored concl show ?thesis
    by (intro conjI)
qed

end
